theory Spec2Isabelle
  imports Main "HOL-Library.Word"
begin

section \<open>The CAN router of libhal-canrouter\<close>

text \<open>
  The development embeds \<^verbatim>\<open>hal::can_router\<close> (\<^verbatim>\<open>can_router.hpp\<close> and its
  implementation file). Router objects and CAN peripherals live at addresses; a router
  holds a pointer to its peripheral, and the peripheral holds, in its single receive slot,
  either the no-op callback or a reference to a router object (\<^verbatim>\<open>std::ref(*this)\<close>).
  Every operation takes the system state and returns the new one; a null-pointer
  dereference, the use of an object that is not alive, and a failed registration are
  error values.

  A route's handler is application code. It is modelled by its effect on the rest of the
  world, a state of an arbitrary type \<open>'w\<close> which is disjoint from the routers and
  peripherals.
\<close>

subsection \<open>Data\<close>

type_synonym addr = nat

text \<open>\<^verbatim>\<open>hal::can::id_t\<close> is a 32-bit unsigned integer.\<close>

type_synonym id_t = "32 word"

text \<open>
  Modelled from the spec: \<^verbatim>\<open>hal::can::message_t\<close> is declared by the CAN driver
  interface, which is not part of the sources at hand. The spec gives a frame an identifier
  and a payload; the router reads the identifier only.
\<close>

record message_t =
  message_id :: id_t
  payload :: "8 word list"

text \<open>\<^verbatim>\<open>noop\<close>: the lambda with an empty body.\<close>

definition noop :: "message_t \<Rightarrow> 'w \<Rightarrow> 'w" where
  "noop p_message w = w"

text \<open>
  \<^verbatim>\<open>struct route { id_t id = 0; message_handler handler = noop; }\<close>. A route
  built without a handler has the handler \<^verbatim>\<open>noop\<close>.
\<close>

record 'w route =
  route_id :: id_t
  handler :: "message_t \<Rightarrow> 'w \<Rightarrow> 'w"

text \<open>
  What an operation can end in instead of a result: a registration refused by a full
  store, the dereference of a null peripheral pointer, and the use of an object that is
  not alive.
\<close>

datatype error = CapacityExceeded | NullDereference | DeadObject

text \<open>
  Modelled from the spec: \<^verbatim>\<open>static_list\<close> is the route store, a container of the
  utility library which is not part of the sources at hand. Following the spec it is a
  list in insertion order, and each entry is reached by the handle which
  \<^verbatim>\<open>push_back\<close> returned for it. An entry is a pair of its handle and its route.
\<close>

type_synonym 'w static_list = "(nat \<times> 'w route) list"

text \<open>
  Modelled from the spec: \<^verbatim>\<open>static_list::push_back\<close>, which is not part of the sources
  at hand. The store has a fixed capacity; \<^verbatim>\<open>push_back\<close> appends the value under the
  given handle and fails when the capacity is exhausted.
\<close>

definition push_back ::
  "nat \<Rightarrow> nat \<Rightarrow> 'w route \<Rightarrow> 'w static_list \<Rightarrow> error + 'w static_list" where
  "push_back capacity h v l =
     (if capacity \<le> length l then Inl CapacityExceeded else Inr (l @ [(h, v)]))"

text \<open>
  Modelled from the spec: the removal of the entry of a handle from a
  \<^verbatim>\<open>static_list\<close>, which is not part of the sources at hand. The other entries keep
  their places.
\<close>

definition erase_item :: "nat \<Rightarrow> 'w static_list \<Rightarrow> 'w static_list" where
  "erase_item h l = filter (\<lambda>e. fst e \<noteq> h) l"

text \<open>The two members of \<^verbatim>\<open>can_router\<close>; \<open>None\<close> is \<^verbatim>\<open>nullptr\<close>.\<close>

record 'w can_router =
  m_handlers :: "'w static_list"
  m_can :: "addr option"

text \<open>
  Modelled from the spec: the receive slot of a \<^verbatim>\<open>hal::can\<close> peripheral, which is
  declared by the CAN driver interface and is not part of the sources at hand. The router
  installs two callbacks only: \<^verbatim>\<open>noop\<close> and a reference to a router object.
\<close>

datatype callback = Noop | Router_ref addr

text \<open>
  The routers alive at their addresses, the receive slot of every peripheral, and the next
  unused handle of the route stores.
\<close>

record 'w system =
  routers :: "addr \<Rightarrow> 'w can_router option"
  cans :: "addr \<Rightarrow> callback"
  next_item :: nat

definition init :: "'w system" where
  "init = \<lparr>routers = (\<lambda>a. None), cans = (\<lambda>c. Noop), next_item = 0\<rparr>"

subsection \<open>Member access\<close>

definition get_m_can :: "addr \<Rightarrow> 'w system \<Rightarrow> addr option" where
  "get_m_can a s = (case routers s a of None \<Rightarrow> None | Some r \<Rightarrow> m_can r)"

definition set_m_can :: "addr \<Rightarrow> addr option \<Rightarrow> 'w system \<Rightarrow> 'w system" where
  "set_m_can a p s =
     s\<lparr>routers := (routers s)(a := map_option (\<lambda>r. r\<lparr>m_can := p\<rparr>) (routers s a))\<rparr>"

definition get_m_handlers :: "addr \<Rightarrow> 'w system \<Rightarrow> 'w static_list" where
  "get_m_handlers a s = (case routers s a of None \<Rightarrow> [] | Some r \<Rightarrow> m_handlers r)"

definition set_m_handlers :: "addr \<Rightarrow> 'w static_list \<Rightarrow> 'w system \<Rightarrow> 'w system" where
  "set_m_handlers a l s =
     s\<lparr>routers := (routers s)(a := map_option (\<lambda>r. r\<lparr>m_handlers := l\<rparr>) (routers s a))\<rparr>"

text \<open>
  Modelled from the spec: the move assignment of \<^verbatim>\<open>static_list\<close>
  (\<^verbatim>\<open>m_handlers = std::move(p_other.m_handlers)\<close>), which is not part of the sources
  at hand. The destination receives all entries of the source with their handles, and
  the source keeps none.
\<close>

definition static_list_move :: "addr \<Rightarrow> addr \<Rightarrow> 'w system \<Rightarrow> 'w system" where
  "static_list_move dst src s =
     set_m_handlers src [] (set_m_handlers dst (get_m_handlers src s) s)"

text \<open>
  Modelled from the spec: \<^verbatim>\<open>hal::can::on_receive\<close>, which is not part of the sources
  at hand. The peripheral has a single receive slot, and the last callback installed wins.
\<close>

definition on_receive :: "addr \<Rightarrow> callback \<Rightarrow> 'w system \<Rightarrow> 'w system" where
  "on_receive c cb s = s\<lparr>cans := (cans s)(c := cb)\<rparr>"

subsection \<open>Construction, move and destruction\<close>

text \<open>
  \<^verbatim>\<open>can_router(hal::can& p_can)\<close>: the object at \<open>this\<close> starts with an empty store
  and a pointer to the peripheral, and is installed as the receive callback.
\<close>

definition can_router_ctor :: "addr \<Rightarrow> addr \<Rightarrow> 'w system \<Rightarrow> 'w system" where
  "can_router_ctor this p_can s =
     on_receive p_can (Router_ref this)
       (s\<lparr>routers := (routers s)(this \<mapsto> \<lparr>m_handlers = [], m_can = Some p_can\<rparr>)\<rparr>)"

text \<open>
  \<^verbatim>\<open>operator=(can_router&& p_other)\<close>, statement by statement. The peripheral pointer
  copied from the source is dereferenced without a check.
\<close>

definition move_assign :: "addr \<Rightarrow> addr \<Rightarrow> 'w system \<Rightarrow> error + 'w system" where
  "move_assign this p_other s =
     (case routers s this of
        None \<Rightarrow> Inl DeadObject
      | Some d \<Rightarrow>
          (case routers s p_other of
             None \<Rightarrow> Inl DeadObject
           | Some r \<Rightarrow>
               (let s1 = static_list_move this p_other s;
                    s2 = set_m_can this (get_m_can p_other s1) s1
                in case get_m_can this s2 of
                     None \<Rightarrow> Inl NullDereference
                   | Some c \<Rightarrow>
                       Inr (set_m_can p_other None (on_receive c (Router_ref this) s2)))))"

text \<open>
  \<^verbatim>\<open>can_router(can_router&& p_other)\<close>: the members take their default initialisers
  (an empty store, a null pointer), then the body assigns \<^verbatim>\<open>*this = std::move(p_other)\<close>.
\<close>

definition move_ctor :: "addr \<Rightarrow> addr \<Rightarrow> 'w system \<Rightarrow> error + 'w system" where
  "move_ctor this p_other s =
     move_assign this p_other
       (s\<lparr>routers := (routers s)(this \<mapsto> \<lparr>m_handlers = [], m_can = None\<rparr>)\<rparr>)"

text \<open>\<^verbatim>\<open>~can_router()\<close>: the callback is reset only if the pointer is not null.\<close>

definition dtor :: "addr \<Rightarrow> 'w system \<Rightarrow> error + 'w system" where
  "dtor this s =
     (case routers s this of
        None \<Rightarrow> Inl DeadObject
      | Some r \<Rightarrow>
          (let s1 = (case m_can r of Some c \<Rightarrow> on_receive c Noop s | None \<Rightarrow> s)
           in Inr (s1\<lparr>routers := (routers s1)(this := None)\<rparr>)))"

text \<open>\<^verbatim>\<open>bus()\<close> returns \<^verbatim>\<open>*m_can\<close>.\<close>

definition bus :: "addr \<Rightarrow> 'w system \<Rightarrow> error + addr" where
  "bus this s =
     (case routers s this of
        None \<Rightarrow> Inl DeadObject
      | Some r \<Rightarrow> (case m_can r of None \<Rightarrow> Inl NullDereference | Some c \<Rightarrow> Inr c))"

subsection \<open>Registration\<close>

text \<open>
  The call \<^verbatim>\<open>m_handlers.push_back(v)\<close> on the router at \<open>this\<close>, which both
  overloads of \<^verbatim>\<open>add_message_callback\<close> make and whose result they return. The item
  returned is the handle of the new entry, the next unused one.
\<close>

definition m_handlers_push_back ::
  "nat \<Rightarrow> addr \<Rightarrow> 'w route \<Rightarrow> 'w system \<Rightarrow> error + (nat \<times> 'w system)" where
  "m_handlers_push_back capacity this v s =
     (case routers s this of
        None \<Rightarrow> Inl DeadObject
      | Some r \<Rightarrow>
          (case push_back capacity (next_item s) v (m_handlers r) of
             Inl e \<Rightarrow> Inl e
           | Inr l \<Rightarrow>
               Inr (next_item s,
                    (set_m_handlers this l s)\<lparr>next_item := Suc (next_item s)\<rparr>)))"

text \<open>
  The overload with an identifier alone stores \<^verbatim>\<open>route{ .id = p_id }\<close>, whose handler
  is the default member initialiser; the overload with a handler stores
  \<^verbatim>\<open>route{ .id = p_id, .handler = std::move(p_handler) }\<close>.
\<close>

definition add_message_callback_id ::
  "nat \<Rightarrow> addr \<Rightarrow> id_t \<Rightarrow> 'w system \<Rightarrow> error + (nat \<times> 'w system)" where
  "add_message_callback_id capacity this p_id s =
     m_handlers_push_back capacity this \<lparr>route_id = p_id, handler = noop\<rparr> s"

definition add_message_callback ::
  "nat \<Rightarrow> addr \<Rightarrow> id_t \<Rightarrow> (message_t \<Rightarrow> 'w \<Rightarrow> 'w) \<Rightarrow> 'w system
     \<Rightarrow> error + (nat \<times> 'w system)" where
  "add_message_callback capacity this p_id p_handler s =
     m_handlers_push_back capacity this \<lparr>route_id = p_id, handler = p_handler\<rparr> s"

text \<open>\<^verbatim>\<open>handlers()\<close> returns the store.\<close>

definition handlers :: "addr \<Rightarrow> 'w system \<Rightarrow> error + 'w static_list" where
  "handlers this s =
     (case routers s this of None \<Rightarrow> Inl DeadObject | Some r \<Rightarrow> Inr (m_handlers r))"

text \<open>
  Modelled from the spec: the destructor of a \<^verbatim>\<open>static_list\<close> item, which is not
  part of the sources at hand. The entry of the handle leaves the store which holds it;
  the handle does not name its owner, which a move may have changed.
\<close>

definition item_dtor :: "nat \<Rightarrow> 'w system \<Rightarrow> 'w system" where
  "item_dtor h s =
     s\<lparr>routers :=
         (\<lambda>a. map_option (\<lambda>r. r\<lparr>m_handlers := erase_item h (m_handlers r)\<rparr>) (routers s a))\<rparr>"

subsection \<open>Dispatch\<close>

text \<open>
  The loop of \<^verbatim>\<open>operator()\<close>: the entries in order, the handler of the first entry
  whose identifier is the message's, then \<^verbatim>\<open>return\<close>. Besides the world after the call
  the function returns the handles of the entries whose handler it has invoked, in the
  order of the invocations.
\<close>

fun dispatch :: "'w static_list \<Rightarrow> message_t \<Rightarrow> 'w \<Rightarrow> nat list \<times> 'w" where
  "dispatch [] p_message w = ([], w)"
| "dispatch ((h, list_handler) # rest) p_message w =
     (if message_id p_message = route_id list_handler
      then ([h], handler list_handler p_message w)
      else dispatch rest p_message w)"

definition operator_call :: "'w can_router \<Rightarrow> message_t \<Rightarrow> 'w \<Rightarrow> nat list \<times> 'w" where
  "operator_call r p_message w = dispatch (m_handlers r) p_message w"

text \<open>
  Modelled from the spec: the delivery of a received frame by the peripheral, which is not
  part of the sources at hand. The frame goes to the callback in the receive slot. A slot
  which refers to a router that is no longer alive is a dangling callback.
\<close>

definition receive ::
  "addr \<Rightarrow> message_t \<Rightarrow> 'w system \<Rightarrow> 'w \<Rightarrow> error + (nat list \<times> 'w)" where
  "receive c p_message s w =
     (case cans s c of
        Noop \<Rightarrow> Inr ([], w)
      | Router_ref a \<Rightarrow>
          (case routers s a of
             None \<Rightarrow> Inl DeadObject
           | Some r \<Rightarrow> Inr (operator_call r p_message w)))"

subsection \<open>Handlers which log\<close>

text \<open>A handler that appends its tag to a world which is a log of tags.\<close>

definition log_handler :: "nat \<Rightarrow> message_t \<Rightarrow> nat list \<Rightarrow> nat list" where
  "log_handler k p_message w = w @ [k]"

definition frame :: "id_t \<Rightarrow> message_t" where
  "frame i = \<lparr>message_id = i, payload = []\<rparr>"

subsection \<open>Sequences of calls\<close>

text \<open>
  A registration call: one of the two overloads of \<^verbatim>\<open>add_message_callback\<close> with
  its arguments.
\<close>

datatype 'w registration =
    With_handler id_t "message_t \<Rightarrow> 'w \<Rightarrow> 'w"
  | Id_only id_t

fun register ::
  "nat \<Rightarrow> addr \<Rightarrow> 'w registration \<Rightarrow> 'w system \<Rightarrow> error + (nat \<times> 'w system)" where
  "register capacity this (With_handler p_id p_handler) s =
     add_message_callback capacity this p_id p_handler s"
| "register capacity this (Id_only p_id) s =
     add_message_callback_id capacity this p_id s"

text \<open>
  A sequence of registration calls on one router, of either overload in any mixture. The
  sequence stops at the first call that fails, as the caller of a failed registration
  would; otherwise it returns the handles in the order of the calls.
\<close>

fun add_all ::
  "nat \<Rightarrow> addr \<Rightarrow> 'w registration list \<Rightarrow> 'w system
     \<Rightarrow> error + (nat list \<times> 'w system)" where
  "add_all capacity this [] s = Inr ([], s)"
| "add_all capacity this (c # calls) s =
     (case register capacity this c s of
        Inl e \<Rightarrow> Inl e
      | Inr (h, s') \<Rightarrow>
          (case add_all capacity this calls s' of
             Inl e \<Rightarrow> Inl e
           | Inr (hs, s'') \<Rightarrow> Inr (h # hs, s'')))"

text \<open>
  The route which a registration call is expected to store: the identifier with the
  handler given, or with \<^verbatim>\<open>noop\<close> when none is given.
\<close>

fun route_of :: "'w registration \<Rightarrow> 'w route" where
  "route_of (With_handler p_id p_handler) = \<lparr>route_id = p_id, handler = p_handler\<rparr>"
| "route_of (Id_only p_id) = \<lparr>route_id = p_id, handler = noop\<rparr>"

subsection \<open>The states of a router and the operations on the system\<close>

text \<open>
  A live router is active for the peripheral its pointer names, or detached when the
  pointer is null. An address at which no router is alive has no router state.
\<close>

datatype status = Active addr | Detached | Not_alive

definition status_of :: "'w system \<Rightarrow> addr \<Rightarrow> status" where
  "status_of s a =
     (case routers s a of
        None \<Rightarrow> Not_alive
      | Some r \<Rightarrow> (case m_can r of None \<Rightarrow> Detached | Some c \<Rightarrow> Active c))"

text \<open>
  The binding of peripherals to routers: the receive slot of the peripheral which an
  active router points to refers to that router.
\<close>

definition bound_inv :: "'w system \<Rightarrow> bool" where
  "bound_inv s = (\<forall>a c. status_of s a = Active c \<longrightarrow> cans s c = Router_ref a)"

text \<open>The calls which application code can make, and a program of such calls.\<close>

datatype 'w operation =
    Construct addr addr
  | Move_assign addr addr
  | Move_construct addr addr
  | Destroy addr
  | Add addr id_t "message_t \<Rightarrow> 'w \<Rightarrow> 'w"
  | Add_id addr id_t
  | Discard nat

fun step :: "nat \<Rightarrow> 'w operation \<Rightarrow> 'w system \<Rightarrow> error + 'w system" where
  "step capacity (Construct this p_can) s = Inr (can_router_ctor this p_can s)"
| "step capacity (Move_assign this p_other) s = move_assign this p_other s"
| "step capacity (Move_construct this p_other) s = move_ctor this p_other s"
| "step capacity (Destroy this) s = dtor this s"
| "step capacity (Add this p_id p_handler) s =
     map_sum id snd (add_message_callback capacity this p_id p_handler s)"
| "step capacity (Add_id this p_id) s =
     map_sum id snd (add_message_callback_id capacity this p_id s)"
| "step capacity (Discard h) s = Inr (item_dtor h s)"

fun run :: "nat \<Rightarrow> 'w operation list \<Rightarrow> 'w system \<Rightarrow> error + 'w system" where
  "run capacity [] s = Inr s"
| "run capacity (op # ops) s =
     (case step capacity op s of Inl e \<Rightarrow> Inl e | Inr s' \<Rightarrow> run capacity ops s')"

text \<open>The state of the router at an address after a program run from the initial system.\<close>

definition status_after :: "nat \<Rightarrow> 'w operation list \<Rightarrow> addr \<Rightarrow> error + status" where
  "status_after capacity ops a = map_sum id (\<lambda>s. status_of s a) (run capacity ops init)"

text \<open>The receive slot of a peripheral after a program run from the initial system.\<close>

definition target_after :: "nat \<Rightarrow> 'w operation list \<Rightarrow> addr \<Rightarrow> error + callback" where
  "target_after capacity ops c = map_sum id (\<lambda>s. cans s c) (run capacity ops init)"

text \<open>
  The delivery of a frame by a peripheral after a program run from the initial system.
\<close>

definition receive_after ::
  "nat \<Rightarrow> 'w operation list \<Rightarrow> addr \<Rightarrow> message_t \<Rightarrow> 'w \<Rightarrow> error + (nat list \<times> 'w)" where
  "receive_after capacity ops c p_message w =
     (case run capacity ops init of
        Inl e \<Rightarrow> Inl e
      | Inr s \<Rightarrow> receive c p_message s w)"

text \<open>
  The effect of a successful move from the active router at \<open>p_other\<close> into the
  router at \<open>this\<close>, in terms of the router states and the receive slots.
\<close>

definition move_effect ::
  "'w system \<Rightarrow> 'w system \<Rightarrow> addr \<Rightarrow> addr \<Rightarrow> addr \<Rightarrow> bool" where
  "move_effect s s' this p_other c \<longleftrightarrow>
     status_of s p_other = Active c \<and>
     cans s' = (cans s)(c := Router_ref this) \<and>
     status_of s' = (status_of s)(this := Active c, p_other := Detached)"

subsection \<open>An example system\<close>

text \<open>
  The router at address 1 is bound to the peripheral 0 and holds three routes: the
  identifier \<open>0x100\<close> with a handler that logs 10, \<open>0x200\<close> with a handler that logs
  20, and \<open>0x100\<close> again with a handler that logs 30. In the second system that router
  has been moved to address 2.
\<close>

definition example_routes :: "nat list static_list" where
  "example_routes =
     [(0, \<lparr>route_id = 0x100, handler = log_handler 10\<rparr>),
      (1, \<lparr>route_id = 0x200, handler = log_handler 20\<rparr>),
      (2, \<lparr>route_id = 0x100, handler = log_handler 30\<rparr>)]"

definition example_system :: "nat list system" where
  "example_system =
     \<lparr>routers = (\<lambda>a. None)(1 \<mapsto> \<lparr>m_handlers = example_routes, m_can = Some 0\<rparr>),
      cans = (\<lambda>c. Noop)(0 := Router_ref 1),
      next_item = 3\<rparr>"

definition example_moved :: "nat list system" where
  "example_moved =
     \<lparr>routers = (\<lambda>a. None)(1 \<mapsto> \<lparr>m_handlers = [], m_can = None\<rparr>,
                             2 \<mapsto> \<lparr>m_handlers = example_routes, m_can = Some 0\<rparr>),
      cans = (\<lambda>c. Noop)(0 := Router_ref 2),
      next_item = 3\<rparr>"

section \<open>Properties of dispatch\<close>

lemma dispatch_skip:
  "\<forall>e \<in> set pre. route_id (snd e) \<noteq> message_id m \<Longrightarrow>
   dispatch (pre @ l) m w = dispatch l m w"
  by (induction pre) auto

lemma dispatch_first:
  assumes "\<forall>e \<in> set pre. route_id (snd e) \<noteq> message_id m"
    and "route_id x = message_id m"
  shows "dispatch (pre @ (h, x) # post) m w = ([h], handler x m w)"
  using assms by (simp add: dispatch_skip)

lemma dispatch_none:
  assumes "\<forall>e \<in> set l. route_id (snd e) \<noteq> message_id m"
  shows "dispatch l m w = ([], w)"
  using dispatch_skip [OF assms, of "[]" w] by simp

text \<open>
  Claim C1. Whatever the frame and the store: if the entries before an entry do not have
  the frame's identifier and the entry has it, then \<^verbatim>\<open>operator()\<close> invokes the handler
  of that entry with the frame, once, and invokes nothing else, whatever entries follow,
  also entries with the same identifier.
\<close>

theorem operator_call_first_match:
  assumes "m_handlers r = pre @ (h, x) # post"
    and "\<forall>e \<in> set pre. route_id (snd e) \<noteq> message_id m"
    and "route_id x = message_id m"
  shows "operator_call r m w = ([h], handler x m w)"
  using assms by (simp add: operator_call_def dispatch_first)

theorem operator_call_first_match_witness:
  "operator_call
     \<lparr>m_handlers =
        [(0, \<lparr>route_id = 0x200, handler = log_handler 20\<rparr>),
         (1, \<lparr>route_id = 0x100, handler = log_handler 10\<rparr>),
         (2, \<lparr>route_id = 0x100, handler = log_handler 30\<rparr>)],
      m_can = Some 0\<rparr>
     (frame 0x100) [] = ([1], [10])"
  using operator_call_first_match
    [of "\<lparr>m_handlers =
            [(0, \<lparr>route_id = 0x200, handler = log_handler 20\<rparr>),
             (1, \<lparr>route_id = 0x100, handler = log_handler 10\<rparr>),
             (2, \<lparr>route_id = 0x100, handler = log_handler 30\<rparr>)],
          m_can = Some 0\<rparr>"
        "[(0, \<lparr>route_id = 0x200, handler = log_handler 20\<rparr>)]"
        1 "\<lparr>route_id = 0x100, handler = log_handler 10\<rparr>"
        "[(2, \<lparr>route_id = 0x100, handler = log_handler 30\<rparr>)]"
        "frame 0x100" "[]"]
  by (simp add: frame_def log_handler_def)

text \<open>
  Claim C2. A frame whose identifier is the identifier of no entry of the store invokes
  no handler: \<^verbatim>\<open>operator()\<close> returns with the world as it was. The function has no
  error value, so it returns normally.
\<close>

theorem operator_call_no_match:
  assumes "\<forall>e \<in> set (m_handlers r). route_id (snd e) \<noteq> message_id m"
  shows "operator_call r m w = ([], w)"
  using assms by (simp add: operator_call_def dispatch_none)

theorem operator_call_no_match_witness:
  "operator_call
     \<lparr>m_handlers =
        [(0, \<lparr>route_id = 0x100, handler = log_handler 10\<rparr>),
         (1, \<lparr>route_id = 0x200, handler = log_handler 20\<rparr>)],
      m_can = Some 0\<rparr>
     (frame 0x300) [7] = ([], [7])"
  using operator_call_no_match
    [of "\<lparr>m_handlers =
            [(0, \<lparr>route_id = 0x100, handler = log_handler 10\<rparr>),
             (1, \<lparr>route_id = 0x200, handler = log_handler 20\<rparr>)],
          m_can = Some 0\<rparr>"
        "frame 0x300" "[7]"]
  by (simp add: frame_def)

section \<open>Properties of registration\<close>

lemma m_handlers_push_back_ok:
  assumes "routers s this = Some r" and "length (m_handlers r) < capacity"
  shows "m_handlers_push_back capacity this v s =
     Inr (next_item s,
          s\<lparr>routers :=
               (routers s)(this \<mapsto> r\<lparr>m_handlers := m_handlers r @ [(next_item s, v)]\<rparr>),
            next_item := Suc (next_item s)\<rparr>)"
  using assms by (simp add: m_handlers_push_back_def push_back_def set_m_handlers_def)

lemma m_handlers_push_back_full:
  assumes "routers s this = Some r" and "capacity \<le> length (m_handlers r)"
  shows "m_handlers_push_back capacity this v s = Inl CapacityExceeded"
  using assms by (simp add: m_handlers_push_back_def push_back_def)

lemma register_ok:
  assumes "routers s this = Some r" and "length (m_handlers r) < capacity"
  shows "register capacity this c s =
     Inr (next_item s,
          s\<lparr>routers :=
               (routers s)
               (this \<mapsto> r\<lparr>m_handlers := m_handlers r @ [(next_item s, route_of c)]\<rparr>),
            next_item := Suc (next_item s)\<rparr>)"
  using m_handlers_push_back_ok [OF assms]
  by (cases c) (simp_all add: add_message_callback_def add_message_callback_id_def)

lemma register_full:
  assumes "routers s this = Some r" and "capacity \<le> length (m_handlers r)"
  shows "register capacity this c s = Inl CapacityExceeded"
  using m_handlers_push_back_full [OF assms]
  by (cases c) (simp_all add: add_message_callback_def add_message_callback_id_def)

lemma add_all_ok:
  "routers s this = Some r \<Longrightarrow> length (m_handlers r) + length calls \<le> capacity \<Longrightarrow>
   \<exists>hs s'. add_all capacity this calls s = Inr (hs, s') \<and> length hs = length calls \<and>
     routers s' this = Some (r\<lparr>m_handlers := m_handlers r @ zip hs (map route_of calls)\<rparr>)"
proof (induction calls arbitrary: s r)
  case Nil
  then show ?case by simp
next
  case (Cons c calls)
  let ?r1 = "r\<lparr>m_handlers := m_handlers r @ [(next_item s, route_of c)]\<rparr>"
  let ?s1 = "s\<lparr>routers := (routers s)(this \<mapsto> ?r1), next_item := Suc (next_item s)\<rparr>"
  from Cons.prems have lt: "length (m_handlers r) < capacity" by simp
  have first: "register capacity this c s = Inr (next_item s, ?s1)"
    using Cons.prems(1) lt by (rule register_ok)
  have r1: "routers ?s1 this = Some ?r1" by simp
  have len: "length (m_handlers ?r1) + length calls \<le> capacity"
    using Cons.prems(2) by simp
  from Cons.IH [OF r1 len] obtain hs s' where
    rest: "add_all capacity this calls ?s1 = Inr (hs, s')" "length hs = length calls"
      "routers s' this =
         Some (?r1\<lparr>m_handlers := m_handlers ?r1 @ zip hs (map route_of calls)\<rparr>)"
    by blast
  show ?case
    using first rest by simp
qed

text \<open>
  Claim C3. Let a router hold some routes and let a sequence of registration calls, of
  either overload in any mixture, fit into what is left of the capacity of its store. Then
  every call of the sequence succeeds and returns a handle, and the store holds the old
  entries followed by one entry per call, in the order of the calls. If the sequence has
  filled the store to its capacity, the next registration, with either overload, fails
  with \<open>CapacityExceeded\<close>: the failure is reported to the caller and no entry is
  dropped to make room.
\<close>

theorem registration_up_to_capacity:
  assumes "routers s this = Some r"
    and "length (m_handlers r) + length calls \<le> capacity"
  shows "\<exists>hs s'. add_all capacity this calls s = Inr (hs, s') \<and>
           length hs = length calls \<and>
           handlers this s' = Inr (m_handlers r @ zip hs (map route_of calls)) \<and>
           (length (m_handlers r) + length calls = capacity \<longrightarrow>
              add_message_callback capacity this p_id p_handler s' = Inl CapacityExceeded \<and>
              add_message_callback_id capacity this p_id s' = Inl CapacityExceeded)"
proof -
  from add_all_ok [OF assms]
  obtain hs s' where ok: "add_all capacity this calls s = Inr (hs, s')"
      "length hs = length calls"
      "routers s' this =
         Some (r\<lparr>m_handlers := m_handlers r @ zip hs (map route_of calls)\<rparr>)"
    by auto
  let ?r' = "r\<lparr>m_handlers := m_handlers r @ zip hs (map route_of calls)\<rparr>"
  have "add_message_callback capacity this p_id p_handler s' = Inl CapacityExceeded \<and>
      add_message_callback_id capacity this p_id s' = Inl CapacityExceeded"
    if "length (m_handlers r) + length calls = capacity"
  proof -
    from that ok(2) have full: "capacity \<le> length (m_handlers ?r')" by simp
    from register_full [OF ok(3) full, of "With_handler p_id p_handler"]
      register_full [OF ok(3) full, of "Id_only p_id"]
    show ?thesis by simp
  qed
  with ok show ?thesis
    by (simp add: handlers_def)
qed

theorem registration_up_to_capacity_witness:
  "routers (can_router_ctor 1 0 init) 1 = Some \<lparr>m_handlers = [], m_can = Some 0\<rparr> \<and>
   (\<exists>hs s'.
      add_all 2 1 [With_handler 0x100 (log_handler 10), Id_only 0x200]
        (can_router_ctor 1 0 init) = Inr (hs, s') \<and>
      length hs = 2 \<and>
      handlers 1 s' =
        Inr (zip hs [\<lparr>route_id = 0x100, handler = log_handler 10\<rparr>,
                     \<lparr>route_id = 0x200, handler = noop\<rparr>]) \<and>
      add_message_callback 2 1 0x300 (log_handler 30) s' = Inl CapacityExceeded \<and>
      add_message_callback_id 2 1 0x300 s' = Inl CapacityExceeded)"
proof -
  have h1: "routers (can_router_ctor 1 0 init) 1 = Some \<lparr>m_handlers = [], m_can = Some 0\<rparr>"
    by (simp add: can_router_ctor_def on_receive_def init_def)
  have h2: "length (m_handlers \<lparr>m_handlers = [], m_can = Some 0\<rparr>) +
      length [With_handler 0x100 (log_handler 10), Id_only 0x200] \<le> 2"
    by simp
  from registration_up_to_capacity [OF h1 h2, of "0x300" "log_handler 30"]
  obtain hs s' where
    "add_all 2 1 [With_handler 0x100 (log_handler 10), Id_only 0x200]
        (can_router_ctor 1 0 init) = Inr (hs, s')"
    "length hs = 2"
    "handlers 1 s' =
        Inr (zip hs [\<lparr>route_id = 0x100, handler = log_handler 10\<rparr>,
                     \<lparr>route_id = 0x200, handler = noop\<rparr>])"
    "add_message_callback 2 1 0x300 (log_handler 30) s' = Inl CapacityExceeded"
    "add_message_callback_id 2 1 0x300 s' = Inl CapacityExceeded"
    by (auto simp del: add_all.simps)
  with h1 show ?thesis by blast
qed

text \<open>
  The scenario of the spec with capacity 2: two registrations succeed and a third fails;
  after one handle has been discarded the third succeeds.
\<close>

lemma capacity_two_scenario:
  "run 2 [Construct 1 0, Add 1 0x100 (log_handler 10), Add 1 0x200 (log_handler 20),
          Add 1 0x300 (log_handler 30)] init = Inl CapacityExceeded \<and>
   map_sum id (handlers 1)
     (run 2 [Construct 1 0, Add 1 0x100 (log_handler 10), Add 1 0x200 (log_handler 20),
             Discard 0, Add 1 0x300 (log_handler 30)] init) =
   Inr (Inr [(1, \<lparr>route_id = 0x200, handler = log_handler 20\<rparr>),
             (2, \<lparr>route_id = 0x300, handler = log_handler 30\<rparr>)])"
  by (simp add: init_def can_router_ctor_def on_receive_def add_message_callback_def
      m_handlers_push_back_def push_back_def set_m_handlers_def item_dtor_def erase_item_def
      handlers_def numeral_2_eq_2)

lemma add_id_eq:
  "add_message_callback_id capacity this p_id s =
   add_message_callback capacity this p_id noop s"
  by (simp add: add_message_callback_id_def add_message_callback_def)

text \<open>
  Claim C8. On every system the registration with an identifier alone gives the result
  of the registration with that identifier and the handler \<^verbatim>\<open>noop\<close>. On a live
  router whose store is not full it succeeds and appends an entry with the identifier and
  \<^verbatim>\<open>noop\<close>, whether or not the identifier is registered already. A frame with that
  identifier which no earlier entry takes is dispatched to the new entry and leaves the
  world as it was: the message is dropped.
\<close>

theorem add_message_callback_id_noop:
  "add_message_callback_id capacity this p_id s =
     add_message_callback capacity this p_id noop s \<and>
   (\<forall>r. routers s this = Some r \<and> length (m_handlers r) < capacity \<longrightarrow>
      (\<exists>h s'. add_message_callback_id capacity this p_id s = Inr (h, s') \<and>
         handlers this s' =
           Inr (m_handlers r @ [(h, \<lparr>route_id = p_id, handler = noop\<rparr>)]) \<and>
         (\<forall>m w. message_id m = p_id \<and>
            (\<forall>e \<in> set (m_handlers r). route_id (snd e) \<noteq> p_id) \<longrightarrow>
            (\<exists>r'. routers s' this = Some r' \<and> operator_call r' m w = ([h], w)))))"
proof (intro conjI allI impI)
  show "add_message_callback_id capacity this p_id s =
      add_message_callback capacity this p_id noop s"
    by (rule add_id_eq)
next
  fix r
  assume a: "routers s this = Some r \<and> length (m_handlers r) < capacity"
  let ?v = "\<lparr>route_id = p_id, handler = noop\<rparr> :: 'a route"
  let ?h = "next_item s"
  let ?r' = "r\<lparr>m_handlers := m_handlers r @ [(?h, ?v)]\<rparr>"
  let ?s' = "s\<lparr>routers := (routers s)(this \<mapsto> ?r'), next_item := Suc (next_item s)\<rparr>"
  from a have r: "routers s this = Some r" and lt: "length (m_handlers r) < capacity"
    by simp_all
  have added: "add_message_callback_id capacity this p_id s = Inr (?h, ?s')"
    using m_handlers_push_back_ok [OF r lt, of ?v]
    by (simp add: add_message_callback_id_def)
  have store: "handlers this ?s' = Inr (m_handlers r @ [(?h, ?v)])"
    by (simp add: handlers_def)
  have drop: "\<exists>r'. routers ?s' this = Some r' \<and> operator_call r' m w = ([?h], w)"
    if "message_id m = p_id \<and> (\<forall>e \<in> set (m_handlers r). route_id (snd e) \<noteq> p_id)"
    for m w
    using that dispatch_first [of "m_handlers r" m ?v ?h "[]" w]
    by (simp add: operator_call_def noop_def)
  show "\<exists>h s'. add_message_callback_id capacity this p_id s = Inr (h, s') \<and>
      handlers this s' = Inr (m_handlers r @ [(h, ?v)]) \<and>
      (\<forall>m w. message_id m = p_id \<and>
         (\<forall>e \<in> set (m_handlers r). route_id (snd e) \<noteq> p_id) \<longrightarrow>
         (\<exists>r'. routers s' this = Some r' \<and> operator_call r' m w = ([h], w)))"
    using added store drop by blast
qed

theorem add_message_callback_id_noop_witness:
  "add_message_callback_id 4 1 0x100 example_system =
     add_message_callback 4 1 0x100 noop example_system \<and>
   (\<exists>h s'. add_message_callback_id 4 1 0x100 example_system = Inr (h, s') \<and>
      handlers 1 s' = Inr (example_routes @ [(h, \<lparr>route_id = 0x100, handler = noop\<rparr>)])) \<and>
   (\<exists>h s'. add_message_callback_id 4 1 0x300 example_system = Inr (h, s') \<and>
      handlers 1 s' = Inr (example_routes @ [(h, \<lparr>route_id = 0x300, handler = noop\<rparr>)]) \<and>
      (\<exists>r'. routers s' 1 = Some r' \<and> operator_call r' (frame 0x300) [7] = ([h], [7])))"
proof -
  let ?r = "\<lparr>m_handlers = example_routes, m_can = Some 0\<rparr>"
  have h1: "routers example_system 1 = Some ?r \<and> length (m_handlers ?r) < 4"
    by (simp add: example_system_def example_routes_def)
  have h2: "message_id (frame 0x300) = 0x300 \<and>
      (\<forall>e \<in> set (m_handlers ?r). route_id (snd e) \<noteq> 0x300)"
    by (simp add: frame_def example_routes_def)
  from add_message_callback_id_noop [of 4 1 "0x100" example_system]
  have eq: "add_message_callback_id 4 1 0x100 example_system =
      add_message_callback 4 1 0x100 noop example_system"
    by blast
  from add_message_callback_id_noop [of 4 1 "0x100" example_system] h1
  obtain h s' where dup: "add_message_callback_id 4 1 0x100 example_system = Inr (h, s')"
    "handlers 1 s' = Inr (m_handlers ?r @ [(h, \<lparr>route_id = 0x100, handler = noop\<rparr>)])"
    by blast
  from add_message_callback_id_noop [of 4 1 "0x300" example_system] h1
  obtain k u where new: "add_message_callback_id 4 1 0x300 example_system = Inr (k, u)"
    "handlers 1 u = Inr (m_handlers ?r @ [(k, \<lparr>route_id = 0x300, handler = noop\<rparr>)])"
    "\<forall>m w. message_id m = 0x300 \<and>
       (\<forall>e \<in> set (m_handlers ?r). route_id (snd e) \<noteq> 0x300) \<longrightarrow>
       (\<exists>r'. routers u 1 = Some r' \<and> operator_call r' m w = ([k], w))"
    by blast
  from new(3) h2 have "\<exists>r'. routers u 1 = Some r' \<and> operator_call r' (frame 0x300) [7] = ([k], [7])"
    by blast
  with eq dup new(1,2) show ?thesis by auto
qed

section \<open>Properties of route handles\<close>

lemma erase_item_absent: "h \<notin> fst ` set l \<Longrightarrow> erase_item h l = l"
  by (induction l) (auto simp: erase_item_def)

lemma erase_item_present:
  assumes "h \<notin> fst ` set (pre @ post)"
  shows "erase_item h (pre @ (h, x) # post) = pre @ post"
proof -
  from assms have "erase_item h pre = pre" and "erase_item h post = post"
    by (auto intro!: erase_item_absent)
  then show ?thesis by (simp add: erase_item_def)
qed

lemma item_dtor_holder:
  assumes "routers s a = Some r"
    and "m_handlers r = pre @ (h, x) # post"
    and "h \<notin> fst ` set (pre @ post)"
  shows "routers (item_dtor h s) a = Some (r\<lparr>m_handlers := pre @ post\<rparr>)"
  using assms(1,2) erase_item_present [OF assms(3), of x] by (simp add: item_dtor_def)

lemma item_dtor_other:
  "routers s b = Some rb \<Longrightarrow> h \<notin> fst ` set (m_handlers rb) \<Longrightarrow>
   routers (item_dtor h s) b = Some rb"
  by (simp add: item_dtor_def erase_item_absent)

text \<open>
  Claim C7. Let the router at \<open>a\<close> hold the entry of the handle \<open>h\<close>, and no second
  entry under that handle. Discarding the handle leaves the store with the entries before
  and after it, each with its handle, identifier and handler and in the same order; the
  routers which do not hold the handle, the peripheral pointer and the receive slots are
  untouched. For a frame which no earlier entry takes: before the discard the entry takes
  the frame if it has the frame's identifier; after the discard no handler is invoked if
  no later entry has the identifier, and the handler of the first later entry with the
  identifier is invoked otherwise.
\<close>

theorem item_dtor_removes:
  assumes "routers s a = Some r"
    and "m_handlers r = pre @ (h, x) # post"
    and "h \<notin> fst ` set (pre @ post)"
    and "\<forall>e \<in> set pre. route_id (snd e) \<noteq> message_id m"
  shows "handlers a (item_dtor h s) = Inr (pre @ post) \<and>
         (\<forall>b rb. routers s b = Some rb \<and> h \<notin> fst ` set (m_handlers rb) \<longrightarrow>
            routers (item_dtor h s) b = Some rb) \<and>
         cans (item_dtor h s) = cans s \<and>
         (route_id x = message_id m \<longrightarrow> operator_call r m w = ([h], handler x m w)) \<and>
         (\<exists>r'. routers (item_dtor h s) a = Some r' \<and> m_can r' = m_can r \<and>
            ((\<forall>e \<in> set post. route_id (snd e) \<noteq> message_id m) \<longrightarrow>
               operator_call r' m w = ([], w)) \<and>
            (\<forall>mid h2 y rest. post = mid @ (h2, y) # rest \<and>
               (\<forall>e \<in> set mid. route_id (snd e) \<noteq> message_id m) \<and>
               route_id y = message_id m \<longrightarrow>
               operator_call r' m w = ([h2], handler y m w)))"
proof -
  let ?r' = "r\<lparr>m_handlers := pre @ post\<rparr>"
  have holder: "routers (item_dtor h s) a = Some ?r'"
    using assms(1-3) by (rule item_dtor_holder)
  have before: "operator_call r m w = ([h], handler x m w)" if "route_id x = message_id m"
    using that assms(2,4) by (simp add: operator_call_def dispatch_first)
  have none: "operator_call ?r' m w = ([], w)"
    if "\<forall>e \<in> set post. route_id (snd e) \<noteq> message_id m"
    using that assms(4) by (simp add: operator_call_def dispatch_none ball_Un)
  have later: "operator_call ?r' m w = ([h2], handler y m w)"
    if "post = mid @ (h2, y) # rest" "\<forall>e \<in> set mid. route_id (snd e) \<noteq> message_id m"
      "route_id y = message_id m" for mid h2 y rest
    using that assms(4) dispatch_first [of "pre @ mid" m y h2 rest w]
    by (simp add: operator_call_def ball_Un)
  have slots: "cans (item_dtor h s) = cans s"
    by (simp add: item_dtor_def)
  show ?thesis
    using holder before none later slots by (auto simp: handlers_def item_dtor_other)
qed

theorem item_dtor_removes_witness:
  "handlers 1 (item_dtor 0 example_system) =
     Inr [(1, \<lparr>route_id = 0x200, handler = log_handler 20\<rparr>),
          (2, \<lparr>route_id = 0x100, handler = log_handler 30\<rparr>)] \<and>
   operator_call \<lparr>m_handlers = example_routes, m_can = Some 0\<rparr> (frame 0x100) [] =
     ([0], [10]) \<and>
   (\<exists>r'. routers (item_dtor 0 example_system) 1 = Some r' \<and>
      operator_call r' (frame 0x100) [] = ([2], [30]))"
proof -
  let ?r = "\<lparr>m_handlers = example_routes, m_can = Some 0\<rparr>"
  let ?a = "\<lparr>route_id = 0x100, handler = log_handler 10\<rparr>"
  let ?b = "\<lparr>route_id = 0x200, handler = log_handler 20\<rparr>"
  let ?c = "\<lparr>route_id = 0x100, handler = log_handler 30\<rparr>"
  have h1: "routers example_system 1 = Some ?r"
    by (simp add: example_system_def)
  have h2: "m_handlers ?r = [] @ (0, ?a) # [(1, ?b), (2, ?c)]"
    by (simp add: example_routes_def)
  have h3: "0 \<notin> fst ` set ([] @ [(1 :: nat, ?b), (2, ?c)])"
    by simp
  have h4: "\<forall>e \<in> set []. route_id (snd e) \<noteq> message_id (frame 0x100)"
    by simp
  from item_dtor_removes [OF h1 h2 h3 h4, of "[]"]
  obtain r' where r': "handlers 1 (item_dtor 0 example_system) = Inr [(1, ?b), (2, ?c)]"
      "route_id ?a = message_id (frame 0x100) \<longrightarrow>
         operator_call ?r (frame 0x100) [] = ([0], handler ?a (frame 0x100) [])"
      "routers (item_dtor 0 example_system) 1 = Some r'"
      "\<forall>mid h2 y rest. [(1, ?b), (2, ?c)] = mid @ (h2, y) # rest \<and>
         (\<forall>e \<in> set mid. route_id (snd e) \<noteq> message_id (frame 0x100)) \<and>
         route_id y = message_id (frame 0x100) \<longrightarrow>
         operator_call r' (frame 0x100) [] = ([h2], handler y (frame 0x100) [])"
    by auto
  from r'(2) have before: "operator_call ?r (frame 0x100) [] = ([0], [10])"
    by (simp add: frame_def log_handler_def)
  from r'(4) [rule_format, of "[(1, ?b)]" 2 ?c "[]"]
  have "operator_call r' (frame 0x100) [] = ([2], [30])"
    by (simp add: frame_def log_handler_def)
  with r'(1,3) before show ?thesis by blast
qed

section \<open>Properties of construction, move and destruction\<close>

lemmas member_defs =
  get_m_can_def set_m_can_def get_m_handlers_def set_m_handlers_def
  static_list_move_def on_receive_def

subsection \<open>The operations in closed form\<close>

lemma move_assign_ok:
  assumes "routers s this = Some d" and "routers s p_other = Some r"
    and "this \<noteq> p_other" and "m_can r = Some c"
  shows "move_assign this p_other s =
     Inr (s\<lparr>routers := (routers s)
                (this \<mapsto> d\<lparr>m_handlers := m_handlers r, m_can := Some c\<rparr>,
                 p_other \<mapsto> r\<lparr>m_handlers := [], m_can := None\<rparr>),
            cans := (cans s)(c := Router_ref this)\<rparr>)"
  using assms by (simp add: move_assign_def member_defs Let_def fun_upd_twist)

lemma move_assign_self:
  assumes "routers s this = Some r" and "m_can r = Some c"
  shows "move_assign this this s =
     Inr (s\<lparr>routers := (routers s)(this \<mapsto> r\<lparr>m_handlers := [], m_can := None\<rparr>),
            cans := (cans s)(c := Router_ref this)\<rparr>)"
  using assms by (simp add: move_assign_def member_defs Let_def)

lemma move_assign_null:
  assumes "routers s this = Some d" and "routers s p_other = Some r" and "m_can r = None"
  shows "move_assign this p_other s = Inl NullDereference"
  using assms by (cases "this = p_other") (simp_all add: move_assign_def member_defs Let_def)

lemma move_assign_dead:
  "routers s this = None \<or> routers s p_other = None \<Longrightarrow>
   move_assign this p_other s = Inl DeadObject"
  by (auto simp: move_assign_def split: option.splits)

lemma move_ctor_ok:
  assumes "routers s p_other = Some r" and "this \<noteq> p_other" and "m_can r = Some c"
  shows "move_ctor this p_other s =
     Inr (s\<lparr>routers := (routers s)
                (this \<mapsto> \<lparr>m_handlers = m_handlers r, m_can = Some c\<rparr>,
                 p_other \<mapsto> r\<lparr>m_handlers := [], m_can := None\<rparr>),
            cans := (cans s)(c := Router_ref this)\<rparr>)"
proof -
  let ?s0 = "s\<lparr>routers := (routers s)(this \<mapsto> \<lparr>m_handlers = [], m_can = None\<rparr>)\<rparr>"
  have a: "routers ?s0 this = Some \<lparr>m_handlers = [], m_can = None\<rparr>" by simp
  have b: "routers ?s0 p_other = Some r" using assms(1,2) by simp
  show ?thesis
    unfolding move_ctor_def move_assign_ok [OF a b assms(2,3)] by simp
qed

lemma move_ctor_null:
  assumes "routers s p_other = Some r" and "this \<noteq> p_other" and "m_can r = None"
  shows "move_ctor this p_other s = Inl NullDereference"
proof -
  let ?s0 = "s\<lparr>routers := (routers s)(this \<mapsto> \<lparr>m_handlers = [], m_can = None\<rparr>)\<rparr>"
  have a: "routers ?s0 this = Some \<lparr>m_handlers = [], m_can = None\<rparr>" by simp
  have b: "routers ?s0 p_other = Some r" using assms(1,2) by simp
  show ?thesis
    unfolding move_ctor_def by (rule move_assign_null [OF a b assms(3)])
qed

lemma dtor_ok:
  assumes "routers s this = Some r"
  shows "dtor this s =
     Inr (s\<lparr>routers := (routers s)(this := None),
            cans := (case m_can r of None \<Rightarrow> cans s | Some c \<Rightarrow> (cans s)(c := Noop))\<rparr>)"
  using assms by (simp add: dtor_def on_receive_def Let_def split: option.splits)

lemma example_system_run:
  "run 4 [Construct 1 0, Add 1 0x100 (log_handler 10), Add 1 0x200 (log_handler 20),
          Add 1 0x100 (log_handler 30)] init = Inr example_system"
  by (simp add: init_def can_router_ctor_def on_receive_def add_message_callback_def
      m_handlers_push_back_def push_back_def set_m_handlers_def example_system_def example_routes_def
      numeral_2_eq_2 numeral_3_eq_3)

lemma example_moved_step: "move_ctor 2 1 example_system = Inr example_moved"
  by (simp add: move_ctor_def move_assign_def member_defs Let_def example_system_def
      example_moved_def fun_upd_twist)

subsection \<open>Move\<close>

text \<open>
  Claim C4. Let the source of a move be alive and active for a peripheral, and let the
  destination be another object: the object under construction for the move constructor,
  which assigns to itself from the source, or a live router for the move assignment. Then
  the move succeeds; the destination holds the entries of the source, each with its
  handle, identifier and handler and in the same order; the destination is active for the
  peripheral and the receive slot of the peripheral refers to the destination, so that a
  frame received afterwards is dispatched over those entries; the source is detached, and
  its destructor leaves every receive slot as it is.
\<close>

theorem move_transfers_store:
  assumes "routers s p_other = Some r" and "this \<noteq> p_other" and "m_can r = Some c"
    and "res = move_ctor this p_other s \<or>
         (routers s this \<noteq> None \<and> res = move_assign this p_other s)"
  shows "\<exists>s'. res = Inr s' \<and>
           handlers this s' = Inr (m_handlers r) \<and>
           status_of s' this = Active c \<and>
           cans s' c = Router_ref this \<and>
           receive c m s' w = Inr (dispatch (m_handlers r) m w) \<and>
           status_of s' p_other = Detached \<and>
           (\<exists>s''. dtor p_other s' = Inr s'' \<and> cans s'' = cans s')"
  using assms(4)
proof
  assume "res = move_ctor this p_other s"
  then show ?thesis
    using assms(2)
    by (simp add: move_ctor_ok [OF assms(1-3)] handlers_def status_of_def receive_def
        operator_call_def dtor_ok)
next
  assume a: "routers s this \<noteq> None \<and> res = move_assign this p_other s"
  then obtain d where d: "routers s this = Some d" by auto
  show ?thesis
    using a assms(2)
    by (simp add: move_assign_ok [OF d assms(1-3)] handlers_def status_of_def receive_def
        operator_call_def dtor_ok)
qed

theorem move_transfers_store_witness:
  "\<exists>s'. move_ctor 2 1 example_system = Inr s' \<and>
      handlers 2 s' = Inr example_routes \<and>
      status_of s' 2 = Active 0 \<and>
      cans s' 0 = Router_ref 2 \<and>
      receive 0 (frame 0x100) s' [] = Inr ([0], [10]) \<and>
      status_of s' 1 = Detached \<and>
      (\<exists>s''. dtor 1 s' = Inr s'' \<and> cans s'' = cans s')"
proof -
  let ?r = "\<lparr>m_handlers = example_routes, m_can = Some 0\<rparr>"
  have h1: "routers example_system 1 = Some ?r"
    by (simp add: example_system_def)
  have h2: "(2 :: addr) \<noteq> 1" by simp
  have h3: "m_can ?r = Some 0" by simp
  have h4: "move_ctor 2 1 example_system = move_ctor 2 1 example_system \<or>
      (routers example_system 2 \<noteq> None \<and>
       move_ctor 2 1 example_system = move_assign 2 1 example_system)"
    by simp
  have d: "dispatch example_routes (frame 0x100) [] = ([0], [10])"
    by (simp add: example_routes_def frame_def log_handler_def)
  from move_transfers_store [OF h1 h2 h3 h4, of "frame 0x100" "[]"] d
  show ?thesis by simp
qed

subsection \<open>Destruction\<close>

text \<open>
  The destructor of a live router succeeds and ends the router's life. If the router is
  active for a peripheral, the receive slot of that peripheral becomes the no-op
  callback and no other slot changes, so that a frame received on that peripheral
  afterwards invokes nothing. If the router is detached, every receive slot stays as it
  is.
\<close>

lemma dtor_own_peripheral:
  assumes "routers s this = Some r"
  shows "\<exists>s'. dtor this s = Inr s' \<and> status_of s' this = Not_alive \<and>
           (\<forall>c. m_can r = Some c \<longrightarrow>
              cans s' = (cans s)(c := Noop) \<and> receive c m s' w = Inr ([], w)) \<and>
           (m_can r = None \<longrightarrow> cans s' = cans s)"
  by (auto simp: dtor_ok [OF assms] status_of_def receive_def split: option.splits)

text \<open>
  Claim C5 does not hold of the code. The destructor resets the slot of the peripheral
  which the router points to, and no other. The move assignment overwrites the peripheral
  pointer of its destination and leaves the slot of the destination's former peripheral
  bound to the destination. So let the router at address 1 be constructed on the
  peripheral 0 and the router at address 2 on the peripheral 5, and let the first be
  assigned from the second. The router at 1 is then active for the peripheral 5 while the
  slot of the peripheral 0 still refers to it. Its destructor resets the slot of the
  peripheral 5; the slot of the peripheral 0 refers to the destroyed router, and a frame
  received there is delivered to an object that is no longer alive.
\<close>

theorem dtor_dangling_callback:
  "status_after 4 [Construct 1 0, Construct 2 5, Move_assign 1 2 :: nat list operation] 1
     = Inr (Active 5) \<and>
   target_after 4 [Construct 1 0, Construct 2 5, Move_assign 1 2 :: nat list operation] 0
     = Inr (Router_ref 1) \<and>
   status_after 4
     [Construct 1 0, Construct 2 5, Move_assign 1 2, Destroy 1 :: nat list operation] 1
     = Inr Not_alive \<and>
   target_after 4
     [Construct 1 0, Construct 2 5, Move_assign 1 2, Destroy 1 :: nat list operation] 5
     = Inr Noop \<and>
   target_after 4
     [Construct 1 0, Construct 2 5, Move_assign 1 2, Destroy 1 :: nat list operation] 0
     = Inr (Router_ref 1) \<and>
   receive_after 4
     [Construct 1 0, Construct 2 5, Move_assign 1 2, Destroy 1] 0 (frame 0x100) ([] :: nat list)
     = Inl DeadObject"
  by (simp add: status_after_def target_after_def receive_after_def init_def
      can_router_ctor_def move_assign_def dtor_def member_defs Let_def status_of_def
      receive_def)

subsection \<open>The moved-from router\<close>

text \<open>
  Claim C9. After a successful move, by assignment or by construction, from a router into
  another object, the source is alive and detached and its store is empty; its
  \<^verbatim>\<open>operator()\<close> on any frame invokes no handler and leaves the world as it was. The
  result of \<^verbatim>\<open>operator()\<close> does not depend on the peripheral pointer, which the
  function never reads, and the function has no error value.
\<close>

theorem detached_dispatch_safe:
  assumes "this \<noteq> p_other"
    and "move_assign this p_other s = Inr s' \<or> move_ctor this p_other s = Inr s'"
  shows "\<exists>r'. routers s' p_other = Some r' \<and> m_can r' = None \<and> m_handlers r' = [] \<and>
           operator_call r' m w = ([], w) \<and>
           (\<forall>p. operator_call (r'\<lparr>m_can := p\<rparr>) m w = operator_call r' m w)"
proof -
  obtain r where r: "routers s p_other = Some r"
    using assms
    by (cases "routers s p_other")
      (auto simp: move_ctor_def move_assign_def split: option.splits)
  obtain c where c: "m_can r = Some c"
    using assms r move_ctor_null [OF r assms(1)]
    by (cases "m_can r"; cases "routers s this")
       (auto simp: move_assign_null [OF _ r] move_assign_dead)
  from assms(2) show ?thesis
  proof
    assume "move_ctor this p_other s = Inr s'"
    then show ?thesis
      by (auto simp: move_ctor_ok [OF r assms(1) c] operator_call_def)
  next
    assume a: "move_assign this p_other s = Inr s'"
    then obtain d where d: "routers s this = Some d"
      by (cases "routers s this") (auto simp: move_assign_dead)
    from a show ?thesis
      by (auto simp: move_assign_ok [OF d r assms(1) c] operator_call_def)
  qed
qed

theorem detached_dispatch_safe_witness:
  "move_ctor 2 1 example_system = Inr example_moved \<and>
   (\<exists>r'. routers example_moved 1 = Some r' \<and> m_can r' = None \<and> m_handlers r' = [] \<and>
      operator_call r' (frame 0x100) [7] = ([], [7]))"
proof -
  have h1: "(2 :: addr) \<noteq> 1" by simp
  have h2: "move_assign 2 1 example_system = Inr example_moved \<or>
      move_ctor 2 1 example_system = Inr example_moved"
    using example_moved_step by blast
  from detached_dispatch_safe [OF h1 h2, of "frame 0x100" "[7]"] example_moved_step
  show ?thesis by blast
qed

subsection \<open>The precondition of a move\<close>

text \<open>
  Claim C10. For a move from a live router, by assignment into a live router or by
  construction of another object: the operation dereferences a null pointer exactly when
  the source is detached, and it completes exactly when the source is active.
\<close>

theorem move_requires_active_source:
  assumes "routers s p_other = Some r"
    and "(res = move_assign this p_other s \<and> routers s this \<noteq> None) \<or>
         (res = move_ctor this p_other s \<and> this \<noteq> p_other)"
  shows "(res = Inl NullDereference \<longleftrightarrow> m_can r = None) \<and>
         ((\<exists>s'. res = Inr s') \<longleftrightarrow> m_can r \<noteq> None)"
proof (cases "m_can r")
  case None
  from assms(2) have "res = Inl NullDereference"
    using move_ctor_null [OF assms(1) _ None] move_assign_null [OF _ assms(1) None]
    by auto
  with None show ?thesis by simp
next
  case (Some c)
  from assms(2) have "\<exists>s'. res = Inr s'"
    using move_ctor_ok [OF assms(1) _ Some] move_assign_ok [OF _ assms(1) _ Some]
      move_assign_self [OF assms(1) Some]
    by (cases "this = p_other") auto
  with Some show ?thesis by auto
qed

theorem move_requires_active_source_witness:
  "move_ctor 3 1 example_moved = Inl NullDereference \<and>
   move_assign 2 1 example_moved = Inl NullDereference \<and>
   (\<exists>s'. move_assign 1 2 example_moved = Inr s')"
proof -
  have h1: "routers example_moved 1 = Some \<lparr>m_handlers = [], m_can = None\<rparr>"
    by (simp add: example_moved_def)
  have h2: "routers example_moved 2 = Some \<lparr>m_handlers = example_routes, m_can = Some 0\<rparr>"
    by (simp add: example_moved_def)
  have a: "(move_ctor 3 1 example_moved = move_assign 3 1 example_moved \<and>
        routers example_moved 3 \<noteq> None) \<or>
      (move_ctor 3 1 example_moved = move_ctor 3 1 example_moved \<and> (3 :: addr) \<noteq> 1)"
    by simp
  have b: "(move_assign 2 1 example_moved = move_assign 2 1 example_moved \<and>
        routers example_moved 2 \<noteq> None) \<or>
      (move_assign 2 1 example_moved = move_ctor 2 1 example_moved \<and> (2 :: addr) \<noteq> 1)"
    using h2 by auto
  have c: "(move_assign 1 2 example_moved = move_assign 1 2 example_moved \<and>
        routers example_moved 1 \<noteq> None) \<or>
      (move_assign 1 2 example_moved = move_ctor 1 2 example_moved \<and> (1 :: addr) \<noteq> 2)"
    using h1 by auto
  from move_requires_active_source [OF h1 a] move_requires_active_source [OF h1 b]
    move_requires_active_source [OF h2 c]
  show ?thesis by simp
qed

section \<open>The states of a router\<close>

subsection \<open>The effect of each operation on the states and the receive slots\<close>

lemma ctor_effect:
  "status_of (can_router_ctor this c s) = (status_of s)(this := Active c)"
  "cans (can_router_ctor this c s) = (cans s)(c := Router_ref this)"
  by (auto simp: can_router_ctor_def on_receive_def status_of_def)

lemma move_assign_effect:
  assumes "move_assign this p_other s = Inr s'"
  obtains c where "status_of s p_other = Active c" and "status_of s this \<noteq> Not_alive"
    and "cans s' = (cans s)(c := Router_ref this)"
    and "status_of s' = (status_of s)(this := Active c, p_other := Detached)"
proof -
  from assms obtain d where d: "routers s this = Some d"
    by (cases "routers s this") (auto simp: move_assign_dead)
  from assms obtain r where r: "routers s p_other = Some r"
    by (cases "routers s p_other") (auto simp: move_assign_dead)
  from assms obtain c where c: "m_can r = Some c"
    by (cases "m_can r") (auto simp: move_assign_null [OF d r])
  show thesis
  proof (cases "this = p_other")
    case True
    with d r have dr: "d = r" by simp
    from assms show ?thesis
      using True r c
      by (intro that [of c]) (auto simp: move_assign_self [OF r c] status_of_def)
  next
    case False
    from assms show ?thesis
      using False d r c
      by (intro that [of c])
        (auto simp: move_assign_ok [OF d r False c] status_of_def split: option.splits)
  qed
qed

lemma move_ctor_effect:
  assumes "move_ctor this p_other s = Inr s'"
  obtains c where "this \<noteq> p_other" and "status_of s p_other = Active c"
    and "cans s' = (cans s)(c := Router_ref this)"
    and "status_of s' = (status_of s)(this := Active c, p_other := Detached)"
proof -
  let ?s0 = "s\<lparr>routers := (routers s)(this \<mapsto> \<lparr>m_handlers = [], m_can = None\<rparr>)\<rparr>"
  have ne: "this \<noteq> p_other"
  proof
    assume "this = p_other"
    then have "move_ctor this p_other s = Inl NullDereference"
      unfolding move_ctor_def
      by (intro move_assign_null [where r = "\<lparr>m_handlers = [], m_can = None\<rparr>"]) simp_all
    with assms show False by simp
  qed
  from assms have ma: "move_assign this p_other ?s0 = Inr s'" by (simp add: move_ctor_def)
  from ma obtain c where e: "status_of ?s0 p_other = Active c"
    "cans s' = (cans ?s0)(c := Router_ref this)"
    "status_of s' = (status_of ?s0)(this := Active c, p_other := Detached)"
    by (rule move_assign_effect)
  have "status_of s p_other = Active c" using e(1) ne by (simp add: status_of_def)
  moreover have "cans s' = (cans s)(c := Router_ref this)" using e(2) by simp
  moreover have "status_of s' = (status_of s)(this := Active c, p_other := Detached)"
    using e(3) by (auto simp: status_of_def)
  ultimately show thesis using ne by (intro that [of c])
qed

lemma dtor_effect:
  assumes "dtor this s = Inr s'"
  shows "status_of s this \<noteq> Not_alive"
    and "status_of s' = (status_of s)(this := Not_alive)"
    and "cans s' = (case status_of s this of Active c \<Rightarrow> (cans s)(c := Noop) | _ \<Rightarrow> cans s)"
proof -
  from assms obtain r where r: "routers s this = Some r"
    by (cases "routers s this") (auto simp: dtor_def)
  from assms show "status_of s this \<noteq> Not_alive"
    and "status_of s' = (status_of s)(this := Not_alive)"
    and "cans s' = (case status_of s this of Active c \<Rightarrow> (cans s)(c := Noop) | _ \<Rightarrow> cans s)"
    using r by (auto simp: dtor_ok [OF r] status_of_def split: option.splits)
qed

lemma m_handlers_push_back_effect:
  assumes "m_handlers_push_back capacity this v s = Inr (h, s')"
  shows "status_of s' = status_of s" and "cans s' = cans s"
  using assms
  by (auto simp: m_handlers_push_back_def set_m_handlers_def status_of_def fun_eq_iff
      split: option.splits sum.splits if_splits)

lemma item_dtor_effect:
  "status_of (item_dtor h s) = status_of s" "cans (item_dtor h s) = cans s"
  by (auto simp: item_dtor_def status_of_def fun_eq_iff split: option.splits)

lemma step_cases:
  assumes "step capacity op s = Inr s'"
  obtains
    (construct) this c where "op = Construct this c"
      "status_of s' = (status_of s)(this := Active c)"
      "cans s' = (cans s)(c := Router_ref this)"
  | (assign) this p_other c where "op = Move_assign this p_other"
      "status_of s this \<noteq> Not_alive" "move_effect s s' this p_other c"
  | (move) this p_other c where "op = Move_construct this p_other"
      "this \<noteq> p_other" "move_effect s s' this p_other c"
  | (destroy) this where "op = Destroy this"
      "status_of s this \<noteq> Not_alive"
      "status_of s' = (status_of s)(this := Not_alive)"
      "cans s' = (case status_of s this of Active c \<Rightarrow> (cans s)(c := Noop) | _ \<Rightarrow> cans s)"
  | (other) "status_of s' = status_of s" "cans s' = cans s"
      "\<And>this x. op \<noteq> Construct this x \<and> op \<noteq> Move_assign this x \<and>
         op \<noteq> Move_construct this x \<and> op \<noteq> Destroy this"
proof (cases op)
  case (Construct this c)
  with assms show ?thesis by (intro construct [of this c]) (auto simp: ctor_effect)
next
  case (Move_assign this p_other)
  with assms have "move_assign this p_other s = Inr s'" by simp
  then obtain c where "status_of s this \<noteq> Not_alive" "move_effect s s' this p_other c"
    unfolding move_effect_def by (rule move_assign_effect) blast
  with Move_assign show ?thesis by (intro assign [of this p_other c])
next
  case (Move_construct this p_other)
  with assms have "move_ctor this p_other s = Inr s'" by simp
  then obtain c where "this \<noteq> p_other" "move_effect s s' this p_other c"
    unfolding move_effect_def by (rule move_ctor_effect) blast
  with Move_construct show ?thesis by (intro move [of this p_other c])
next
  case (Destroy this)
  with assms have "dtor this s = Inr s'" by simp
  from dtor_effect [OF this] Destroy show ?thesis by (intro destroy [of this])
next
  case (Add this p_id p_handler)
  with assms obtain h where
    "m_handlers_push_back capacity this \<lparr>route_id = p_id, handler = p_handler\<rparr> s = Inr (h, s')"
    by (cases "add_message_callback capacity this p_id p_handler s")
      (auto simp: add_message_callback_def)
  from m_handlers_push_back_effect [OF this] Add show ?thesis by (intro other) auto
next
  case (Add_id this p_id)
  with assms obtain h where
    "m_handlers_push_back capacity this \<lparr>route_id = p_id, handler = noop\<rparr> s = Inr (h, s')"
    by (cases "add_message_callback_id capacity this p_id s")
      (auto simp: add_message_callback_id_def)
  from m_handlers_push_back_effect [OF this] Add_id show ?thesis by (intro other) auto
next
  case (Discard h)
  with assms show ?thesis by (intro other) (auto simp: item_dtor_effect)
qed

lemma step_detach:
  assumes "step capacity op s = Inr s'"
    and "status_of s' a = Detached" and "status_of s a \<noteq> Detached"
  shows "\<exists>dst. op = Move_assign dst a \<or> op = Move_construct dst a"
  using assms(1)
  by (cases rule: step_cases) (use assms(2,3) in \<open>auto simp: move_effect_def split: if_splits\<close>)

lemma step_activate:
  assumes "step capacity op s = Inr s'"
    and "status_of s' a = Active c" and "status_of s a \<noteq> Active c"
  shows "op = Construct a c \<or>
    (\<exists>src. src \<noteq> a \<and> status_of s src = Active c \<and>
       (op = Move_assign a src \<or> op = Move_construct a src))"
  using assms(1)
  by (cases rule: step_cases) (use assms(2,3) in \<open>auto simp: move_effect_def split: if_splits\<close>)

lemma step_end:
  assumes "step capacity op s = Inr s'"
    and "status_of s' a = Not_alive" and "status_of s a \<noteq> Not_alive"
  shows "op = Destroy a"
  using assms(1)
  by (cases rule: step_cases) (use assms(2,3) in \<open>auto simp: move_effect_def split: if_splits\<close>)

lemma step_construct_post:
  assumes "step capacity (Construct this c) s = Inr s'"
  shows "status_of s' this = Active c \<and> cans s' c = Router_ref this"
  using assms by (auto simp: ctor_effect)

lemma step_move_post:
  assumes "step capacity op s = Inr s'"
    and "op = Move_assign this src \<or> op = Move_construct this src" and "src \<noteq> this"
  shows "\<exists>c. status_of s src = Active c \<and> status_of s' this = Active c \<and>
           cans s' c = Router_ref this \<and> status_of s' src = Detached"
  using assms(1)
  by (cases rule: step_cases) (use assms(2,3) in \<open>auto simp: move_effect_def\<close>)

lemma bound_inv_unique:
  assumes "bound_inv s" and "status_of s a = Active c" and "status_of s b = Active c"
  shows "a = b"
proof -
  from assms(1,2) have "cans s c = Router_ref a"
    unfolding bound_inv_def by blast
  moreover from assms(1,3) have "cans s c = Router_ref b"
    unfolding bound_inv_def by blast
  ultimately show ?thesis by simp
qed

lemma step_bound_inv:
  assumes "step capacity op s = Inr s'" and "bound_inv s"
    and "\<forall>this c a. op = Construct this c \<longrightarrow> status_of s a \<noteq> Active c"
  shows "bound_inv s'"
  using assms(1)
proof (cases rule: step_cases)
  case (construct this c)
  with assms(2,3) show ?thesis by (auto simp: bound_inv_def)
next
  case (assign this p_other c)
  with assms(2) show ?thesis
    by (auto simp: bound_inv_def move_effect_def split: if_splits
        dest: bound_inv_unique [OF assms(2)])
next
  case (move this p_other c)
  with assms(2) show ?thesis
    by (auto simp: bound_inv_def move_effect_def split: if_splits
        dest: bound_inv_unique [OF assms(2)])
next
  case (destroy this)
  with assms(2) show ?thesis
    by (auto simp: bound_inv_def split: if_splits status.splits
        dest: bound_inv_unique [OF assms(2)])
next
  case other
  with assms(2) show ?thesis by (simp add: bound_inv_def)
qed

subsection \<open>Transitions and the binding of the peripheral\<close>

text \<open>
  Claim C6, as the code has it. A live router is detached or active for one peripheral.
  In a successful operation a router becomes detached only as the source of a move; it
  becomes active for a peripheral only by its construction on that peripheral or as the
  destination of a move from another router which is active for it, whatever its state
  before; and its life ends only in its destructor. Construction binds the receive slot of
  the peripheral to the constructed router, and a move between two objects binds the slot
  of the source's peripheral to the destination and detaches the source. If no router is
  constructed on a peripheral for which a live router is active, every operation keeps the
  invariant that the receive slot of the peripheral of an active router refers to that
  router.
\<close>

theorem router_states:
  assumes "step capacity op s = Inr s'"
  shows "(\<forall>a. routers s' a \<noteq> None \<longrightarrow>
            status_of s' a = Detached \<or> (\<exists>c. status_of s' a = Active c)) \<and>
         (\<forall>a. status_of s' a = Detached \<and> status_of s a \<noteq> Detached \<longrightarrow>
            (\<exists>dst. op = Move_assign dst a \<or> op = Move_construct dst a)) \<and>
         (\<forall>a c. status_of s' a = Active c \<and> status_of s a \<noteq> Active c \<longrightarrow>
            op = Construct a c \<or>
            (\<exists>src. src \<noteq> a \<and> status_of s src = Active c \<and>
               (op = Move_assign a src \<or> op = Move_construct a src))) \<and>
         (\<forall>a. status_of s' a = Not_alive \<and> status_of s a \<noteq> Not_alive \<longrightarrow>
            op = Destroy a) \<and>
         (\<forall>this c. op = Construct this c \<longrightarrow>
            status_of s' this = Active c \<and> cans s' c = Router_ref this) \<and>
         (\<forall>this src. src \<noteq> this \<and> (op = Move_assign this src \<or> op = Move_construct this src)
            \<longrightarrow> (\<exists>c. status_of s src = Active c \<and> status_of s' this = Active c \<and>
                   cans s' c = Router_ref this \<and> status_of s' src = Detached)) \<and>
         (bound_inv s \<and> (\<forall>this c a. op = Construct this c \<longrightarrow> status_of s a \<noteq> Active c)
            \<longrightarrow> bound_inv s')"
proof -
  have two: "status_of s' a = Detached \<or> (\<exists>c. status_of s' a = Active c)"
    if "routers s' a \<noteq> None" for a
    using that by (auto simp: status_of_def split: option.splits)
  have post: "status_of s' this = Active c \<and> cans s' c = Router_ref this"
    if "op = Construct this c" for this c
    using that assms step_construct_post by blast
  show ?thesis
    using two post step_detach [OF assms] step_activate [OF assms] step_end [OF assms]
      step_move_post [OF assms] step_bound_inv [OF assms]
    by (intro conjI allI impI) blast+
qed

theorem router_states_witness:
  "step 4 (Move_construct 2 1) example_system = Inr example_moved \<and>
   bound_inv example_system \<and> bound_inv example_moved \<and>
   status_of example_system 1 = Active 0 \<and>
   status_of example_moved 1 = Detached \<and>
   status_of example_moved 2 = Active 0 \<and>
   cans example_moved 0 = Router_ref 2"
proof -
  have h: "step 4 (Move_construct 2 1) example_system = Inr example_moved"
    using example_moved_step by simp
  have i: "bound_inv example_system"
    by (auto simp: bound_inv_def status_of_def example_system_def
        split: option.splits if_splits)
  have a: "status_of example_system 1 = Active 0"
    by (simp add: status_of_def example_system_def)
  have n: "(1 :: addr) \<noteq> 2" by simp
  from router_states [OF h] i have "bound_inv example_moved" by blast
  moreover from router_states [OF h] n
  obtain c where "status_of example_system 1 = Active c" "status_of example_moved 2 = Active c"
    "cans example_moved c = Router_ref 2" "status_of example_moved 1 = Detached"
    by blast
  ultimately show ?thesis using h i a by auto
qed

text \<open>
  Claim C6 as the spec states it fails. The router at address 1 is constructed, then
  moved from, which detaches it; an assignment into it makes it active again, and a second
  move from it detaches it a second time. And two routers constructed on one peripheral
  are both active for it, while its receive slot refers to the second.
\<close>

theorem router_states_counterexample:
  "status_after 4 [Construct 1 0, Move_construct 2 1 :: nat list operation] 1
     = Inr Detached \<and>
   status_after 4 [Construct 1 0, Move_construct 2 1, Move_assign 1 2 :: nat list operation] 1
     = Inr (Active 0) \<and>
   status_after 4
     [Construct 1 0, Move_construct 2 1, Move_assign 1 2,
      Move_assign 2 1 :: nat list operation] 1
     = Inr Detached \<and>
   status_after 4 [Construct 1 0, Construct 2 0 :: nat list operation] 1 = Inr (Active 0) \<and>
   target_after 4 [Construct 1 0, Construct 2 0 :: nat list operation] 0 = Inr (Router_ref 2)"
  by (simp add: status_after_def target_after_def init_def can_router_ctor_def
      move_ctor_def move_assign_def member_defs Let_def status_of_def)

end
